theory Spec2Isabelle
  imports Main "HOL-Library.Word"
begin

unbundle bit_operations_syntax

section \<open>Word clock on a MAX7219 8x8 matrix: model of WordClock\_MAX7219.ino\<close>

text \<open>
  The sketch works on \<open>uint8_t\<close> hours, minutes and row masks; they are 8-bit words here.
  Where C promotes a \<open>uint8_t\<close> to \<open>int\<close> before computing (comparisons with the case
  labels, \<open>(m + 1) % 60\<close>), the model reads the word with \<open>unat\<close> and computes on
  naturals, so that no wrap-around is introduced that the source does not have.
\<close>

type_synonym u8 = "8 word"
type_synonym u32 = "32 word"

subsection \<open>Font data\<close>

definition FONT_ROWS :: nat where
  "FONT_ROWS = 8"

text \<open>\<open>fontMap[][FONT_ROWS]\<close>: the digits 0 to 9, then \<open>+\<close> and \<open>-\<close>.\<close>

definition fontMap :: "u8 list list" where
  "fontMap =
    [ [0x7, 0x5, 0x5, 0x5, 0x5, 0x5, 0x7, 0x0],
      [0x1, 0x1, 0x1, 0x1, 0x1, 0x1, 0x1, 0x0],
      [0x7, 0x1, 0x1, 0x7, 0x4, 0x4, 0x7, 0x0],
      [0x7, 0x1, 0x1, 0x7, 0x1, 0x1, 0x7, 0x0],
      [0x4, 0x4, 0x5, 0x5, 0x7, 0x1, 0x1, 0x0],
      [0x7, 0x4, 0x4, 0x7, 0x1, 0x1, 0x7, 0x0],
      [0x7, 0x4, 0x4, 0x7, 0x5, 0x5, 0x7, 0x0],
      [0x7, 0x1, 0x1, 0x1, 0x1, 0x1, 0x1, 0x0],
      [0x7, 0x5, 0x5, 0x7, 0x5, 0x5, 0x7, 0x0],
      [0x7, 0x5, 0x5, 0x7, 0x1, 0x1, 0x7, 0x0],
      [0x0, 0x0, 0x2, 0x7, 0x2, 0x0, 0x0, 0x0],
      [0x0, 0x0, 0x0, 0x7, 0x0, 0x0, 0x0, 0x0] ]"

text \<open>
  \<open>pgm_read_byte(&fontMap[c][i])\<close>. The table has twelve glyphs; a read past it is
  undefined in the source, which the model reports as \<open>None\<close>.
\<close>

definition pgm_read_fontMap :: "nat \<Rightarrow> nat \<Rightarrow> u8 option" where
  "pgm_read_fontMap c i =
     (if c < length fontMap \<and> i < FONT_ROWS then Some (fontMap ! c ! i) else None)"

subsection \<open>Summer time\<close>

text \<open>
  \<open>isSummerMode\<close> reads the byte at EEPROM address \<open>EE_SUMMER_FLAG\<close>; the byte is the
  parameter \<open>ee\<close> of every function that depends on it.
\<close>

definition isSummerMode :: "u8 \<Rightarrow> bool" where
  "isSummerMode ee = (ee \<noteq> 0)"

definition currentHour :: "u8 \<Rightarrow> u8 \<Rightarrow> u8" where
  "currentHour ee h =
     (let h1 = h + (if isSummerMode ee then 1 else 0)
      in if h1 > 12 then 1 else h1)"

subsection \<open>Digit encoder\<close>

text \<open>
  One pass of the loop of \<open>mapNumber\<close>: \<open>*map = font[hi][i] << 4; *map |= font[lo][i]\<close>.
  The shifted value is stored in a \<open>uint8_t\<close>, so the shift is the 8-bit one.
\<close>

definition mapRow :: "nat \<Rightarrow> nat \<Rightarrow> nat \<Rightarrow> u8 option" where
  "mapRow hi lo i =
     (case pgm_read_fontMap hi i of
        None \<Rightarrow> None
      | Some a \<Rightarrow>
          (case pgm_read_fontMap lo i of
             None \<Rightarrow> None
           | Some b \<Rightarrow> Some (push_bit 4 a OR b)))"

definition mapNumber :: "u8 \<Rightarrow> u8 list option" where
  "mapNumber num =
     (let hi = num div 10; lo = num mod 10
      in those (map (mapRow (unat hi) (unat lo)) [0..<FONT_ROWS]))"

subsection \<open>The LED matrix\<close>

text \<open>
  The matrix is driven through the MD\_MAX72XX library, which keeps one byte per row of the
  8x8 module. \<open>clock.clear()\<close> zeroes the buffer; \<open>clock.setRow(r, v)\<close> replaces row \<open>r\<close>
  by \<open>v\<close> and does nothing for a row outside the module. Between
  \<open>control(UPDATE, OFF)\<close> and \<open>control(UPDATE, ON)\<close> the changes are collected and sent
  together, so the model is the buffer.
\<close>

type_synonym display = "u8 list"

definition ROW_SIZE :: nat where
  "ROW_SIZE = 8"

definition clock_clear :: "display \<Rightarrow> display" where
  "clock_clear d = replicate ROW_SIZE 0"

definition clock_setRow :: "u8 \<Rightarrow> u8 \<Rightarrow> display \<Rightarrow> display" where
  "clock_setRow r v d = (if unat r < ROW_SIZE then d[unat r := v] else d)"

text \<open>\<open>mapShow\<close>: clear, then one \<open>setRow\<close> for each of the \<open>FONT_ROWS\<close> bytes of the buffer.\<close>

definition mapShow :: "u8 list \<Rightarrow> display \<Rightarrow> display" where
  "mapShow mp d = fold (\<lambda>i. clock_setRow (word_of_nat i) (mp ! i)) [0..<FONT_ROWS] (clock_clear d)"

subsection \<open>Words of the clock face\<close>

record clockWord_t =
  row :: u8
  data :: u8

definition M_05 :: clockWord_t where "M_05 = \<lparr>row = 2, data = 0b11110000\<rparr>"
definition M_10 :: clockWord_t where "M_10 = \<lparr>row = 0, data = 0b01011000\<rparr>"
definition M_15 :: clockWord_t where "M_15 = \<lparr>row = 1, data = 0b11111110\<rparr>"
definition M_20 :: clockWord_t where "M_20 = \<lparr>row = 0, data = 0b01111110\<rparr>"
definition M_30 :: clockWord_t where "M_30 = \<lparr>row = 2, data = 0b00001111\<rparr>"

definition TO :: clockWord_t where "TO = \<lparr>row = 3, data = 0b00001100\<rparr>"
definition PAST :: clockWord_t where "PAST = \<lparr>row = 3, data = 0b01111000\<rparr>"

definition H_01 :: "clockWord_t list" where "H_01 = [\<lparr>row = 7, data = 0b01001001\<rparr>]"
definition H_02 :: "clockWord_t list" where
  "H_02 = [\<lparr>row = 6, data = 0b11000000\<rparr>, \<lparr>row = 7, data = 0b01000000\<rparr>]"
definition H_03 :: "clockWord_t list" where "H_03 = [\<lparr>row = 5, data = 0b00011111\<rparr>]"
definition H_04 :: "clockWord_t list" where "H_04 = [\<lparr>row = 7, data = 0b11110000\<rparr>]"
definition H_05 :: "clockWord_t list" where "H_05 = [\<lparr>row = 4, data = 0b11110000\<rparr>]"
definition H_06 :: "clockWord_t list" where "H_06 = [\<lparr>row = 5, data = 0b11100000\<rparr>]"
definition H_07 :: "clockWord_t list" where
  "H_07 = [\<lparr>row = 5, data = 0b10000000\<rparr>, \<lparr>row = 6, data = 0b00001111\<rparr>]"
definition H_08 :: "clockWord_t list" where "H_08 = [\<lparr>row = 4, data = 0b00011111\<rparr>]"
definition H_09 :: "clockWord_t list" where "H_09 = [\<lparr>row = 7, data = 0b00001111\<rparr>]"
definition H_10 :: "clockWord_t list" where
  "H_10 = [\<lparr>row = 4, data = 0b00000001\<rparr>, \<lparr>row = 5, data = 0b00000001\<rparr>,
           \<lparr>row = 6, data = 0b00000001\<rparr>]"
definition H_11 :: "clockWord_t list" where "H_11 = [\<lparr>row = 6, data = 0b00111111\<rparr>]"
definition H_12 :: "clockWord_t list" where "H_12 = [\<lparr>row = 6, data = 0b11110110\<rparr>]"

text \<open>One \<open>clock.setRow(word.row, word.data)\<close> for each word of a list, in order.\<close>

definition setWords :: "clockWord_t list \<Rightarrow> display \<Rightarrow> display" where
  "setWords ws d = fold (\<lambda>w. clock_setRow (row w) (data w)) ws d"

subsection \<open>Time in words: \<open>updateClock\<close>\<close>

definition PRE_DELTA :: nat where
  "PRE_DELTA = 2"

definition POST_DELTA :: nat where
  "POST_DELTA = 2"

text \<open>
  The minute \<open>switch\<close>. Each arm is its list of case ranges \<open>lo ... hi\<close>, written as in
  the source, and the words its body sets. The scrutinee is promoted to \<open>int\<close>, so ranges
  and scrutinee are naturals. A value that matches no range falls out of the \<open>switch\<close>
  (there is no \<open>default\<close>).
\<close>

type_synonym case_range = "nat \<times> nat"

definition minute_switch :: "(case_range list \<times> clockWord_t list) list" where
  "minute_switch =
    [ ([(0, 0 + POST_DELTA), (60 - PRE_DELTA, 59)], []),
      ([(5 - PRE_DELTA, 5 + POST_DELTA), (55 - PRE_DELTA, 55 + POST_DELTA)], [M_05]),
      ([(10 - PRE_DELTA, 10 + POST_DELTA), (50 - PRE_DELTA, 50 + POST_DELTA)], [M_10]),
      ([(15 - PRE_DELTA, 15 + POST_DELTA), (45 - PRE_DELTA, 45 + POST_DELTA)], [M_15]),
      ([(20 - PRE_DELTA, 20 + POST_DELTA), (40 - PRE_DELTA, 40 + POST_DELTA)], [M_20]),
      ([(25 - PRE_DELTA, 25 + POST_DELTA), (35 - PRE_DELTA, 35 + POST_DELTA)], [M_05, M_20]),
      ([(30 - PRE_DELTA, 30 + POST_DELTA)], [M_30]) ]"

definition in_case_range :: "nat \<Rightarrow> case_range \<Rightarrow> bool" where
  "in_case_range n r = (fst r \<le> n \<and> n \<le> snd r)"

definition switch_select :: "nat \<Rightarrow> (case_range list \<times> 'a) list \<Rightarrow> 'a option" where
  "switch_select n arms =
     map_option snd (find (\<lambda>arm. list_ex (in_case_range n) (fst arm)) arms)"

definition minuteWords :: "u8 \<Rightarrow> clockWord_t list" where
  "minuteWords m = (case switch_select (unat m) minute_switch of None \<Rightarrow> [] | Some ws \<Rightarrow> ws)"

text \<open>The case ranges of the minute \<open>switch\<close>, in source order.\<close>

definition minute_case_ranges :: "case_range list" where
  "minute_case_ranges = concat (map fst minute_switch)"

text \<open>To/past display.\<close>

definition pastToWords :: "u8 \<Rightarrow> clockWord_t list" where
  "pastToWords m =
     (if unat m > 0 + POST_DELTA \<and> unat m < 60 - PRE_DELTA
      then (if unat m \<le> 30 + POST_DELTA then [PAST] else [TO])
      else [])"

text \<open>After the half hour the hour number is adjusted: \<open>if (h < 12) h++; else h = 1;\<close>\<close>

definition adjustHour :: "u8 \<Rightarrow> u8 \<Rightarrow> u8" where
  "adjustHour h m =
     (if unat m > 30 + POST_DELTA then (if h < 12 then h + 1 else 1) else h)"

text \<open>
  The hour \<open>switch\<close>: one case for each of 1 to 12, each setting the pointer \<open>H\<close> and
  \<open>numElements\<close>. It has no \<open>default\<close>: for any other value both stay uninitialised and
  the loop that follows reads them, which the model reports as an error.
\<close>

definition hour_switch :: "(u8 \<times> clockWord_t list) list" where
  "hour_switch =
    [ (1, H_01), (2, H_02), (3, H_03), (4, H_04), (5, H_05), (6, H_06),
      (7, H_07), (8, H_08), (9, H_09), (10, H_10), (11, H_11), (12, H_12) ]"

definition hourWords :: "u8 \<Rightarrow> clockWord_t list option" where
  "hourWords v = map_option snd (find (\<lambda>c. fst c = v) hour_switch)"

datatype error = UninitialisedHourWord

text \<open>The value the hour \<open>switch\<close> is entered with: \<open>currentHour(h)\<close> after the adjustment.\<close>

definition hourScrutinee :: "u8 \<Rightarrow> u8 \<Rightarrow> u8 \<Rightarrow> u8" where
  "hourScrutinee ee h m = currentHour ee (adjustHour h m)"

definition updateClock :: "u8 \<Rightarrow> u8 \<Rightarrow> u8 \<Rightarrow> display \<Rightarrow> error + display" where
  "updateClock ee h m d =
     (let d0 = clock_clear d;
          d1 = setWords (minuteWords m) d0;
          d2 = setWords (pastToWords m) d1
      in case hourWords (hourScrutinee ee h m) of
           None \<Rightarrow> Inl UninitialisedHourWord
         | Some H \<Rightarrow> Inr (setWords H d2))"

text \<open>
  The words \<open>updateClock\<close> passes to \<open>setRow\<close>, in program order: those of the minute
  \<open>switch\<close>, then to/past, then the hour name.
\<close>

definition wordSpans :: "u8 \<Rightarrow> u8 \<Rightarrow> u8 \<Rightarrow> error + clockWord_t list" where
  "wordSpans ee h m =
     (case hourWords (hourScrutinee ee h m) of
        None \<Rightarrow> Inl UninitialisedHourWord
      | Some H \<Rightarrow> Inr (minuteWords m @ pastToWords m @ H))"

subsection \<open>Setting the time: \<open>setupTime\<close>\<close>

datatype stateSetup_t = SS_DISP_HOUR | SS_HOUR | SS_DISP_MIN | SS_MIN | SS_END

text \<open>The results of \<open>MD_KeySwitch::read()\<close>.\<close>

datatype keyResult_t = KS_NULL | KS_PRESS | KS_DPRESS | KS_LONGPRESS | KS_RPTPRESS

text \<open>
  What one pass of the \<open>while\<close> loop reads from outside: \<open>millis()\<close> at the time-out test,
  the switch (read in the two editing states only), and \<open>millis()\<close> when an activity is
  recorded.
\<close>

record poll =
  t_check :: u32
  key :: keyResult_t
  t_event :: u32

text \<open>
  The variables of the loop. \<open>setupTime\<close> is called as \<open>setupTime(RTC.h, RTC.m)\<close>, so its
  reference parameters \<open>h\<close> and \<open>m\<close> are \<open>RTC.h\<close> and \<open>RTC.m\<close> themselves: one field
  each. \<open>ss_map\<close> is the local buffer of \<open>FONT_ROWS\<close> bytes.
\<close>

record setup_vars =
  ss_state :: stateSetup_t
  timeLastActivity :: u32
  rtc_h :: u8
  rtc_m :: u8
  ss_map :: "u8 list"
  ss_display :: display

definition SETUP_TIMEOUT :: u32 where
  "SETUP_TIMEOUT = 10000"

definition setupStep :: "u8 \<Rightarrow> poll \<Rightarrow> setup_vars \<Rightarrow> setup_vars option" where
  "setupStep ee p s =
     (let s1 = (if t_check p - timeLastActivity s \<ge> SETUP_TIMEOUT
                then s\<lparr>ss_state := SS_END\<rparr> else s)
      in case ss_state s1 of
           SS_DISP_HOUR \<Rightarrow>
             (case mapNumber (currentHour ee (rtc_h s1)) of
                None \<Rightarrow> None
              | Some mp \<Rightarrow>
                  Some (s1\<lparr>ss_map := mp, ss_display := mapShow mp (ss_display s1),
                           ss_state := SS_HOUR\<rparr>))
         | SS_HOUR \<Rightarrow>
             (case key p of
                KS_DPRESS \<Rightarrow>
                  Some (s1\<lparr>timeLastActivity := t_event p, ss_state := SS_DISP_MIN\<rparr>)
              | KS_PRESS \<Rightarrow>
                  Some (s1\<lparr>timeLastActivity := t_event p,
                           rtc_h := (let h1 = rtc_h s1 + 1 in if h1 = 13 then 1 else h1),
                           ss_state := SS_DISP_HOUR\<rparr>)
              | _ \<Rightarrow> Some s1)
         | SS_DISP_MIN \<Rightarrow>
             (case mapNumber (rtc_m s1) of
                None \<Rightarrow> None
              | Some mp \<Rightarrow>
                  Some (s1\<lparr>ss_map := mp, ss_display := mapShow mp (ss_display s1),
                           ss_state := SS_MIN\<rparr>))
         | SS_MIN \<Rightarrow>
             (case key p of
                KS_DPRESS \<Rightarrow>
                  Some (s1\<lparr>timeLastActivity := t_event p, ss_state := SS_END\<rparr>)
              | KS_PRESS \<Rightarrow>
                  Some (s1\<lparr>timeLastActivity := t_event p,
                           rtc_m := word_of_nat ((unat (rtc_m s1) + 1) mod 60),
                           ss_state := SS_DISP_MIN,
                           ss_display := mapShow (ss_map s1) (ss_display s1)\<rparr>)
              | _ \<Rightarrow> Some s1)
         | SS_END \<Rightarrow> Some (s1\<lparr>ss_state := SS_END\<rparr>))"

text \<open>
  The loop \<open>while (state != SS_END)\<close> on a list of readings, one per pass: the variables
  when the loop has ended or the readings are used up, whichever comes first.
\<close>

fun setupRun :: "u8 \<Rightarrow> poll list \<Rightarrow> setup_vars \<Rightarrow> setup_vars option" where
  "setupRun ee [] s = Some s"
| "setupRun ee (p # ps) s =
     (if ss_state s = SS_END then Some s
      else case setupStep ee p s of
             None \<Rightarrow> None
           | Some s' \<Rightarrow> setupRun ee ps s')"

text \<open>
  \<open>setupTime\<close> enters the loop in state \<open>SS_DISP_HOUR\<close> with \<open>timeLastActivity = millis()\<close>.
  Its buffer \<open>map\<close> is not initialised: the content it starts with is the parameter \<open>buf\<close>.
\<close>

definition setupTime ::
  "u8 \<Rightarrow> u32 \<Rightarrow> poll list \<Rightarrow> u8 \<Rightarrow> u8 \<Rightarrow> u8 list \<Rightarrow> display \<Rightarrow> setup_vars option" where
  "setupTime ee t0 ps h m buf d =
     setupRun ee ps
       \<lparr>ss_state = SS_DISP_HOUR, timeLastActivity = t0, rtc_h = h, rtc_m = m,
        ss_map = buf, ss_display = d\<rparr>"

text \<open>
  A single click while editing: the pass that reads \<open>KS_PRESS\<close>, and the pass that shows
  the new value and returns to the editing state. All readings of \<open>millis()\<close> are \<open>t\<close>.
\<close>

definition click :: "u32 \<Rightarrow> poll list" where
  "click t = [\<lparr>t_check = t, key = KS_PRESS, t_event = t\<rparr>,
              \<lparr>t_check = t, key = KS_NULL, t_event = t\<rparr>]"

definition clicks :: "nat \<Rightarrow> u32 \<Rightarrow> poll list" where
  "clicks n t = concat (replicate n (click t))"

section \<open>Reference definitions\<close>

text \<open>The hours, minutes and summer flags the properties range over.\<close>

definition hours :: "u8 list" where
  "hours = map word_of_nat [1..<13]"

definition minutes :: "u8 list" where
  "minutes = map word_of_nat [0..<60]"

definition flags :: "u8 list" where
  "flags = [0, 1]"

text \<open>
  The displayed hour as the specification words it: the real hour plus one when the summer
  flag is set, 13 wrapping to 1.
\<close>

definition spec_summer_hour :: "u8 \<Rightarrow> u8 \<Rightarrow> u8" where
  "spec_summer_hour ee h = (if isSummerMode ee then (if h + 1 = 13 then 1 else h + 1) else h)"

text \<open>
  The hour whose name is shown, in the order the specification gives: the summer offset
  first, then, after minute 32, one hour further with 12 wrapping to 1.
\<close>

definition spec_hour_glyph_index :: "u8 \<Rightarrow> u8 \<Rightarrow> u8 \<Rightarrow> u8" where
  "spec_hour_glyph_index ee h m =
     (let hs = spec_summer_hour ee h
      in if unat m > 32 then (if hs = 12 then 1 else hs + 1) else hs)"

text \<open>
  The twelve windows of the specification: \<open>[a - 2, a + 2]\<close> around each of the anchors
  5, 10, ..., 55, and the top-of-hour window.
\<close>

definition anchors :: "nat list" where
  "anchors = [5, 10, 15, 20, 25, 30, 35, 40, 45, 50, 55]"

definition anchor_windows :: "nat set list" where
  "anchor_windows = map (\<lambda>a. {a - 2..a + 2}) anchors @ [{58, 59, 0, 1, 2}]"

text \<open>
  The frame as the specification words it: each row is the bitwise OR of the patterns of
  the words that target it, and zero when there is none.
\<close>

definition spec_row :: "clockWord_t list \<Rightarrow> nat \<Rightarrow> u8" where
  "spec_row ws r = fold (\<lambda>w acc. acc OR data w) (filter (\<lambda>w. unat (row w) = r) ws) 0"

definition spec_frame :: "clockWord_t list \<Rightarrow> display" where
  "spec_frame ws = map (spec_row ws) [0..<ROW_SIZE]"

text \<open>
  The effect of one single click on the hour (\<open>h++; if (h == 13) h = 1;\<close>) and on the
  minute (\<open>m = (m + 1) % 60\<close>), as \<open>setupStep\<close> performs them.
\<close>

definition nextHour :: "u8 \<Rightarrow> u8" where
  "nextHour h = (let h1 = h + 1 in if h1 = 13 then 1 else h1)"

definition nextMinute :: "u8 \<Rightarrow> u8" where
  "nextMinute m = word_of_nat ((unat m + 1) mod 60)"

section \<open>Properties\<close>

subsection \<open>Enumerating hours and minutes\<close>

lemma hour_cases:
  fixes h :: u8
  assumes "1 \<le> h" "h \<le> 12"
  shows "h \<in> set hours"
proof -
  have "unat h \<in> set [1..<13]"
    using assms by (simp add: word_le_nat_alt)
  then have "word_of_nat (unat h) \<in> set hours"
    unfolding hours_def set_map by (rule imageI)
  then show ?thesis by simp
qed

lemma minute_cases:
  fixes m :: u8
  assumes "m \<le> 59"
  shows "m \<in> set minutes"
proof -
  have "unat m \<in> set [0..<60]"
    using assms by (simp add: word_le_nat_alt)
  then have "word_of_nat (unat m) \<in> set minutes"
    unfolding minutes_def set_map by (rule imageI)
  then show ?thesis by simp
qed

lemma flag_cases: "(if isSummerMode ee then 1 else 0) \<in> set flags"
  by (simp add: flags_def)

lemma currentHour_flag: "currentHour ee h = currentHour (if isSummerMode ee then 1 else 0) h"
  by (simp add: currentHour_def isSummerMode_def)

lemma isSummerMode_flag: "isSummerMode (if isSummerMode ee then 1 else 0) = isSummerMode ee"
  by (simp add: isSummerMode_def)

lemma currentHour_enum:
  "\<forall>e\<in>set flags. \<forall>h\<in>set hours.
     currentHour e h = (if isSummerMode e then (if h + 1 = 13 then 1 else h + 1) else h)
       \<and> 1 \<le> currentHour e h \<and> currentHour e h \<le> 12"
  by code_simp

lemma currentHour_hours:
  assumes "1 \<le> h" "h \<le> 12"
  shows "currentHour ee h = (if isSummerMode ee then (if h + 1 = 13 then 1 else h + 1) else h)"
    and "1 \<le> currentHour ee h" and "currentHour ee h \<le> 12"
proof -
  let ?e = "if isSummerMode ee then 1 else 0 :: u8"
  have h: "h \<in> set hours" using assms by (rule hour_cases)
  have e: "?e \<in> set flags" by (rule flag_cases)
  from currentHour_enum e h
  have "currentHour ?e h = (if isSummerMode ?e then (if h + 1 = 13 then 1 else h + 1) else h)
       \<and> 1 \<le> currentHour ?e h \<and> currentHour ?e h \<le> 12"
    by blast
  then have "currentHour ee h = (if isSummerMode ee then (if h + 1 = 13 then 1 else h + 1) else h)
       \<and> 1 \<le> currentHour ee h \<and> currentHour ee h \<le> 12"
    unfolding isSummerMode_flag currentHour_flag [symmetric] .
  then show "currentHour ee h = (if isSummerMode ee then (if h + 1 = 13 then 1 else h + 1) else h)"
    and "1 \<le> currentHour ee h" and "currentHour ee h \<le> 12"
    by blast+
qed

lemma successor_enum:
  "\<forall>h\<in>set hours. 1 \<le> (if h < 12 then h + 1 else 1) \<and> (if h < 12 then h + 1 else 1) \<le> 12
     \<and> (if h < 12 then h + 1 else 1) = (word_of_nat (unat h mod 12 + 1) :: u8)
     \<and> (if h < 12 then h + 1 else 1) = (if h = 12 then 1 else h + 1)"
  by code_simp

lemma adjustHour_hours:
  assumes "1 \<le> h" "h \<le> 12"
  shows "1 \<le> adjustHour h m" and "adjustHour h m \<le> 12"
  using successor_enum hour_cases [OF assms] assms
  by (auto simp: adjustHour_def)

lemma hour_switch_enum:
  "\<forall>v\<in>set hours. length (filter (\<lambda>c. fst c = v) hour_switch) = 1 \<and> hourWords v \<noteq> None"
  by code_simp

lemma swap_enum:
  "\<forall>e\<in>set flags. \<forall>h\<in>set hours.
     currentHour e (if h < 12 then h + 1 else 1)
       = (if spec_summer_hour e h = 12 then 1 else spec_summer_hour e h + 1)
     \<and> currentHour e h = spec_summer_hour e h"
  by code_simp

lemma mapNumber_enum:
  "\<forall>v\<in>set (map word_of_nat [0..<100]). 
     (case mapNumber v of None \<Rightarrow> False | Some mp \<Rightarrow> length mp = 8 \<and> (\<forall>i\<in>set [0..<8].
         drop_bit 4 (mp ! i) = fontMap ! unat (v div 10) ! i
       \<and> mp ! i AND 0x0F = fontMap ! unat (v mod 10) ! i))"
  by code_simp


lemma mapNumber_digits:
  assumes "v \<le> 99"
  shows "\<exists>mp. mapNumber v = Some mp \<and> length mp = 8 \<and> (\<forall>i<8.
         drop_bit 4 (mp ! i) = fontMap ! unat (v div 10) ! i
       \<and> mp ! i AND 0x0F = fontMap ! unat (v mod 10) ! i)"
proof -
  have "unat v \<in> set [0..<100]"
    using assms by (simp add: word_le_nat_alt)
  then have "word_of_nat (unat v) \<in> (set (map word_of_nat [0..<100]) :: u8 set)"
    unfolding set_map by (rule imageI)
  then have "v \<in> set (map word_of_nat [0..<100])" by simp
  with mapNumber_enum
  have "case mapNumber v of None \<Rightarrow> False | Some mp \<Rightarrow> length mp = 8 \<and> (\<forall>i\<in>set [0..<8].
         drop_bit 4 (mp ! i) = fontMap ! unat (v div 10) ! i
       \<and> mp ! i AND 0x0F = fontMap ! unat (v mod 10) ! i)"
    by blast
  then show ?thesis
    by (cases "mapNumber v") simp_all
qed

lemma digits_in_table:
  fixes v :: u8
  shows "unat (v mod 10) < length fontMap" and "v \<le> 99 \<Longrightarrow> unat (v div 10) < length fontMap"
proof -
  have "unat (v mod 10) < 10"
    by (simp add: unat_mod)
  then show "unat (v mod 10) < length fontMap"
    by (simp add: fontMap_def)
  assume "v \<le> 99"
  then have "unat v \<le> 99" by (simp add: word_le_nat_alt)
  then have "unat (v div 10) < 10"
    by (simp add: unat_div)
  then show "unat (v div 10) < length fontMap"
    by (simp add: fontMap_def)
qed

subsection \<open>Summer time and the hour shown\<close>

text \<open>
  C7: for a real hour \<open>h\<close> in 1..12, \<open>currentHour\<close> gives \<open>h + 1\<close>, with 13 wrapped to 1, when
  the summer flag is set and \<open>h\<close> when it is clear; the result is in 1..12, and real hour 12
  with the flag set gives 1.
\<close>

theorem currentHour_summer:
  assumes "1 \<le> h" "h \<le> 12"
  shows "currentHour ee h = (if isSummerMode ee then (if h + 1 = 13 then 1 else h + 1) else h)
       \<and> 1 \<le> currentHour ee h \<and> currentHour ee h \<le> 12
       \<and> (isSummerMode ee \<and> h = 12 \<longrightarrow> currentHour ee h = 1)"
  using currentHour_hours [OF assms, of ee] by auto

theorem currentHour_summer_witness:
  "(1 :: u8) \<le> 12 \<and> (12 :: u8) \<le> 12 \<and> isSummerMode 1 \<and> currentHour 1 12 = 1"
proof -
  have h: "(1 :: u8) \<le> 12" "(12 :: u8) \<le> 12" by simp_all
  show ?thesis
    using h currentHour_summer [OF h, of 1] by (simp add: isSummerMode_def)
qed


text \<open>
  C2: for every real hour in 1..12, minute in 0..59 and summer flag, the hour name shown by
  \<open>updateClock\<close> is the one obtained by adding the summer offset first (13 wrapping to 1)
  and then, when the minute is above 32, advancing the hour by one (12 wrapping to 1).
  The source advances first and adds the offset second; on 1..12 both orders give the same
  hour.
\<close>

theorem summer_offset_before_advance:
  assumes "1 \<le> h" "h \<le> 12" "m \<le> 59"
  shows "hourScrutinee ee h m = spec_hour_glyph_index ee h m
       \<and> hourWords (hourScrutinee ee h m) = hourWords (spec_hour_glyph_index ee h m)"
proof -
  let ?e = "if isSummerMode ee then 1 else 0 :: u8"
  have h: "h \<in> set hours" using assms(1,2) by (rule hour_cases)
  have e: "?e \<in> set flags" by (rule flag_cases)
  have s: "spec_summer_hour ?e h = spec_summer_hour ee h"
    by (simp add: spec_summer_hour_def isSummerMode_flag)
  from swap_enum e h
  have "currentHour ?e (if h < 12 then h + 1 else 1)
       = (if spec_summer_hour ?e h = 12 then 1 else spec_summer_hour ?e h + 1)
     \<and> currentHour ?e h = spec_summer_hour ?e h"
    by blast
  then have "currentHour ee (if h < 12 then h + 1 else 1)
       = (if spec_summer_hour ee h = 12 then 1 else spec_summer_hour ee h + 1)
     \<and> currentHour ee h = spec_summer_hour ee h"
    unfolding s currentHour_flag [symmetric] .
  then have "hourScrutinee ee h m = spec_hour_glyph_index ee h m"
    by (simp add: hourScrutinee_def adjustHour_def spec_hour_glyph_index_def POST_DELTA_def)
  then show ?thesis by simp
qed

theorem summer_offset_before_advance_witness:
  "(1 :: u8) \<le> 12 \<and> (12 :: u8) \<le> 12 \<and> (45 :: u8) \<le> 59
   \<and> hourScrutinee 1 12 45 = 2 \<and> spec_hour_glyph_index 1 12 45 = 2"
proof -
  have h: "(1 :: u8) \<le> 12" "(12 :: u8) \<le> 12" "(45 :: u8) \<le> 59" by simp_all
  have "hourScrutinee 1 12 45 = 2" by code_simp
  then show ?thesis
    using h summer_offset_before_advance [OF h, of 1] by simp
qed

text \<open>
  C6: with the summer flag clear and an hour \<open>h\<close> in 1..12, the hour \<open>switch\<close> of
  \<open>updateClock\<close> is entered with \<open>(h mod 12) + 1\<close> for a minute in 33..59 and with \<open>h\<close>
  for a minute in 0..32.
\<close>

theorem effective_hour_flag_clear:
  assumes "1 \<le> h" "h \<le> 12" "m \<le> 59" "\<not> isSummerMode ee"
  shows "(33 \<le> unat m \<longrightarrow> hourScrutinee ee h m = word_of_nat (unat h mod 12 + 1))
       \<and> (unat m \<le> 32 \<longrightarrow> hourScrutinee ee h m = h)"
proof -
  have h: "h \<in> set hours" using assms(1,2) by (rule hour_cases)
  have a: "1 \<le> adjustHour h m" "adjustHour h m \<le> 12"
    using assms(1,2) by (rule adjustHour_hours)+
  have "hourScrutinee ee h m = adjustHour h m"
    unfolding hourScrutinee_def using currentHour_hours(1) [OF a] assms(4) by simp
  moreover from successor_enum h
  have "(if h < 12 then h + 1 else 1) = (word_of_nat (unat h mod 12 + 1) :: u8)"
    by blast
  ultimately show ?thesis
    by (auto simp: adjustHour_def POST_DELTA_def)
qed

theorem effective_hour_flag_clear_witness:
  "(1 :: u8) \<le> 12 \<and> (12 :: u8) \<le> 12 \<and> (33 :: u8) \<le> 59 \<and> \<not> isSummerMode 0
   \<and> hourScrutinee 0 12 33 = 1 \<and> hourScrutinee 0 12 32 = 12"
proof -
  have h: "(1 :: u8) \<le> 12" "(12 :: u8) \<le> 12" "(33 :: u8) \<le> 59" "\<not> isSummerMode 0"
    by (simp_all add: isSummerMode_def)
  have h': "(32 :: u8) \<le> 59" by simp
  show ?thesis
    using h effective_hour_flag_clear [OF h] effective_hour_flag_clear [OF h(1,2) h' h(4)]
    by simp
qed

text \<open>
  Outside 1..12 the path that reads the uninitialised pointer is taken: hour 0 with the
  summer flag clear enters the \<open>switch\<close> with 0, which matches no case.
\<close>

lemma updateClock_hour_zero: "updateClock 0 0 10 d = Inl UninitialisedHourWord"
proof -
  have "hourWords (hourScrutinee 0 0 10) = None"
    by code_simp
  then show ?thesis
    by (simp add: updateClock_def)
qed

text \<open>
  C10: for every hour in 1..12, minute in 0..59 and summer flag, the value the hour \<open>switch\<close>
  of \<open>updateClock\<close> is entered with is in 1..12, exactly one of its twelve cases matches, so
  that the word pointer and the element count are set before the loop reads them, and
  \<open>updateClock\<close> does not take the path that reads them uninitialised.
\<close>

theorem hour_switch_initialised:
  assumes "1 \<le> h" "h \<le> 12" "m \<le> 59"
  shows "1 \<le> hourScrutinee ee h m \<and> hourScrutinee ee h m \<le> 12
       \<and> length (filter (\<lambda>c. fst c = hourScrutinee ee h m) hour_switch) = 1
       \<and> (\<exists>H. hourWords (hourScrutinee ee h m) = Some H)
       \<and> (\<exists>f. updateClock ee h m d = Inr f)"
proof -
  let ?v = "hourScrutinee ee h m"
  have a: "1 \<le> adjustHour h m" "adjustHour h m \<le> 12"
    using assms(1,2) by (rule adjustHour_hours)+
  have v: "1 \<le> ?v" "?v \<le> 12"
    unfolding hourScrutinee_def using a by (rule currentHour_hours(2), rule currentHour_hours(3))
  then have "?v \<in> set hours" by (rule hour_cases)
  with hour_switch_enum
  have s: "length (filter (\<lambda>c. fst c = ?v) hour_switch) = 1" "hourWords ?v \<noteq> None"
    by blast+
  then obtain H where H: "hourWords ?v = Some H" by blast
  then have "updateClock ee h m d
             = Inr (setWords H (setWords (pastToWords m) (setWords (minuteWords m) (clock_clear d))))"
    by (simp add: updateClock_def)
  with v s(1) H show ?thesis by blast
qed

theorem hour_switch_initialised_witness:
  "(1 :: u8) \<le> 12 \<and> (12 :: u8) \<le> 12 \<and> (45 :: u8) \<le> 59 \<and> hourScrutinee 1 12 45 = 2
   \<and> hourWords (hourScrutinee 1 12 45) = Some H_02"
proof -
  have h: "(1 :: u8) \<le> 12" "(12 :: u8) \<le> 12" "(45 :: u8) \<le> 59" by simp_all
  have "hourScrutinee 1 12 45 = 2" by code_simp
  moreover have "hourWords 2 = Some H_02" by code_simp
  ultimately show ?thesis
    using h hour_switch_initialised [OF h, of 1 "[]"] by simp
qed

subsection \<open>Minute zones and the words set\<close>

lemma minute_zone_enum:
  "\<forall>n\<in>set [0..<60].
     length (filter (in_case_range n) minute_case_ranges) = 1
   \<and> length (filter (\<lambda>w. n \<in> w) anchor_windows) = 1
   \<and> (\<forall>r\<in>set minute_case_ranges. in_case_range n r \<longrightarrow>
         (\<exists>w\<in>set anchor_windows. n \<in> w \<and> {fst r..snd r} \<subseteq> w))
   \<and> switch_select n minute_switch \<noteq> None"
  by code_simp

text \<open>
  C1: every minute in 0..59 matches exactly one case range of the minute \<open>switch\<close> of
  \<open>updateClock\<close> and lies in exactly one of the twelve anchor windows; the case range it
  matches lies inside that window, and the \<open>switch\<close> takes an arm.
\<close>

theorem minute_windows_partition:
  fixes m :: u8
  assumes "m \<le> 59"
  shows "length (filter (in_case_range (unat m)) minute_case_ranges) = 1
       \<and> length (filter (\<lambda>w. unat m \<in> w) anchor_windows) = 1
       \<and> (\<forall>r\<in>set minute_case_ranges. in_case_range (unat m) r \<longrightarrow>
            (\<exists>w\<in>set anchor_windows. unat m \<in> w \<and> {fst r..snd r} \<subseteq> w))
       \<and> switch_select (unat m) minute_switch \<noteq> None"
proof -
  have "unat m \<in> set [0..<60]"
    using assms by (simp add: word_le_nat_alt)
  with minute_zone_enum show ?thesis by blast
qed

theorem minute_windows_partition_witness:
  "(7 :: u8) \<le> 59
   \<and> filter (in_case_range (unat (7 :: u8))) minute_case_ranges = [(3, 7)]
   \<and> filter (\<lambda>w. unat (7 :: u8) \<in> w) anchor_windows = [{3..7}]
   \<and> switch_select (unat (7 :: u8)) minute_switch = Some [M_05]"
proof -
  have h: "(7 :: u8) \<le> 59" by simp
  have "filter (in_case_range (unat (7 :: u8))) minute_case_ranges = [(3, 7)]"
    by code_simp
  moreover have "filter (\<lambda>w. unat (7 :: u8) \<in> w) anchor_windows = [{3..7}]"
    by (simp add: anchor_windows_def anchors_def)
  moreover have "switch_select (unat (7 :: u8)) minute_switch = Some [M_05]"
    by code_simp
  ultimately show ?thesis
    using h minute_windows_partition [OF h] by simp
qed

lemma past_to_enum:
  "\<forall>m\<in>set minutes.
     (unat m \<in> {58, 59, 0, 1, 2} \<longrightarrow> minuteWords m = [] \<and> pastToWords m = [])
   \<and> (3 \<le> unat m \<and> unat m \<le> 32 \<longrightarrow>
         pastToWords m = [PAST] \<and> PAST \<notin> set (minuteWords m) \<and> TO \<notin> set (minuteWords m))
   \<and> (33 \<le> unat m \<and> unat m \<le> 57 \<longrightarrow>
         pastToWords m = [TO] \<and> PAST \<notin> set (minuteWords m) \<and> TO \<notin> set (minuteWords m))"
  by code_simp

lemma hour_words_enum:
  "\<forall>v\<in>set hours.
     (case hourWords v of
        None \<Rightarrow> False
      | Some H \<Rightarrow> (\<forall>w\<in>set [M_05, M_10, M_15, M_20, M_30, PAST, TO]. w \<notin> set H))"
  by code_simp

lemma minute_rows_enum:
  "\<forall>m\<in>set minutes.
     distinct (map (\<lambda>w. unat (row w)) (minuteWords m @ pastToWords m))
   \<and> (\<forall>w\<in>set (minuteWords m @ pastToWords m). unat (row w) < 4)"
  by code_simp

lemma hour_rows_enum:
  "\<forall>v\<in>set hours.
     (case hourWords v of
        None \<Rightarrow> False
      | Some H \<Rightarrow> distinct (map (\<lambda>w. unat (row w)) H)
                  \<and> (\<forall>w\<in>set H. 4 \<le> unat (row w) \<and> unat (row w) < 8))"
  by code_simp


lemma wordSpans_hours:
  assumes "1 \<le> h" "h \<le> 12"
  shows "\<exists>H. hourScrutinee ee h m \<in> set hours \<and> hourWords (hourScrutinee ee h m) = Some H
           \<and> wordSpans ee h m = Inr (minuteWords m @ pastToWords m @ H)"
proof -
  let ?v = "hourScrutinee ee h m"
  have a: "1 \<le> adjustHour h m" "adjustHour h m \<le> 12"
    using assms by (rule adjustHour_hours)+
  have "1 \<le> ?v" "?v \<le> 12"
    unfolding hourScrutinee_def using a by (rule currentHour_hours(2), rule currentHour_hours(3))
  then have v: "?v \<in> set hours" by (rule hour_cases)
  with hour_switch_enum have "hourWords ?v \<noteq> None" by blast
  then obtain H where H: "hourWords ?v = Some H" by blast
  then have "wordSpans ee h m = Inr (minuteWords m @ pastToWords m @ H)"
    by (simp add: wordSpans_def)
  with v H show ?thesis by blast
qed

text \<open>
  C5: for every hour in 1..12 and every summer flag, \<open>updateClock\<close> sets no minute word and
  neither PAST nor TO for a minute in 58, 59, 0, 1, 2; it sets PAST and not TO for a minute
  in 3..32, and TO and not PAST for a minute in 33..57.
\<close>

theorem past_to_selection:
  assumes "1 \<le> h" "h \<le> 12" "m \<le> 59"
  shows "\<exists>ws. wordSpans ee h m = Inr ws
       \<and> (unat m \<in> {58, 59, 0, 1, 2} \<longrightarrow>
            minuteWords m = [] \<and> pastToWords m = []
          \<and> (\<forall>w\<in>set [M_05, M_10, M_15, M_20, M_30, PAST, TO]. w \<notin> set ws))
       \<and> (3 \<le> unat m \<and> unat m \<le> 32 \<longrightarrow> PAST \<in> set ws \<and> TO \<notin> set ws)
       \<and> (33 \<le> unat m \<and> unat m \<le> 57 \<longrightarrow> TO \<in> set ws \<and> PAST \<notin> set ws)"
proof -
  from wordSpans_hours [OF assms(1,2)] obtain H where
    v: "hourScrutinee ee h m \<in> set hours" and
    H: "hourWords (hourScrutinee ee h m) = Some H" and
    ws: "wordSpans ee h m = Inr (minuteWords m @ pastToWords m @ H)"
    by blast
  from hour_words_enum v H
  have hw: "\<forall>w\<in>set [M_05, M_10, M_15, M_20, M_30, PAST, TO]. w \<notin> set H"
    by fastforce
  have "m \<in> set minutes" using assms(3) by (rule minute_cases)
  with past_to_enum
  have mw: "unat m \<in> {58, 59, 0, 1, 2} \<longrightarrow> minuteWords m = [] \<and> pastToWords m = []"
    "3 \<le> unat m \<and> unat m \<le> 32 \<longrightarrow>
       pastToWords m = [PAST] \<and> PAST \<notin> set (minuteWords m) \<and> TO \<notin> set (minuteWords m)"
    "33 \<le> unat m \<and> unat m \<le> 57 \<longrightarrow>
       pastToWords m = [TO] \<and> PAST \<notin> set (minuteWords m) \<and> TO \<notin> set (minuteWords m)"
    by blast+
  have pt: "PAST \<noteq> TO" by (simp add: PAST_def TO_def)
  let ?ws = "minuteWords m @ pastToWords m @ H"
  have "unat m \<in> {58, 59, 0, 1, 2} \<longrightarrow>
            minuteWords m = [] \<and> pastToWords m = []
          \<and> (\<forall>w\<in>set [M_05, M_10, M_15, M_20, M_30, PAST, TO]. w \<notin> set ?ws)"
    using mw(1) hw by simp
  moreover have "3 \<le> unat m \<and> unat m \<le> 32 \<longrightarrow> PAST \<in> set ?ws \<and> TO \<notin> set ?ws"
    using mw(2) hw pt by simp
  moreover have "33 \<le> unat m \<and> unat m \<le> 57 \<longrightarrow> TO \<in> set ?ws \<and> PAST \<notin> set ?ws"
    using mw(3) hw pt by simp
  ultimately show ?thesis using ws by blast
qed

theorem past_to_selection_witness:
  "(1 :: u8) \<le> 9 \<and> (9 :: u8) \<le> 12 \<and> (38 :: u8) \<le> 59
   \<and> wordSpans 0 9 38 = Inr ([M_20, TO] @ H_10)"
proof -
  have h: "(1 :: u8) \<le> 9" "(9 :: u8) \<le> 12" "(38 :: u8) \<le> 59" by simp_all
  have "wordSpans 0 9 38 = Inr ([M_20, TO] @ H_10)" by code_simp
  then show ?thesis
    using h past_to_selection [OF h, of 0] by simp
qed


subsection \<open>The frame\<close>

lemma spec_row_snoc:
  "spec_row (ws @ [w]) r
     = (if unat (row w) = r then spec_row ws r OR data w else spec_row ws r)"
  by (simp add: spec_row_def)

lemma spec_row_untargeted:
  assumes "\<forall>w\<in>set ws. unat (row w) \<noteq> r"
  shows "spec_row ws r = 0"
proof -
  have "filter (\<lambda>w. unat (row w) = r) ws = []"
    using assms by (simp add: filter_empty_conv)
  then show ?thesis by (simp add: spec_row_def)
qed

lemma length_spec_frame: "length (spec_frame ws) = ROW_SIZE"
  by (simp add: spec_frame_def)

lemma nth_spec_frame: "r < ROW_SIZE \<Longrightarrow> spec_frame ws ! r = spec_row ws r"
  by (simp add: spec_frame_def)

lemma setWords_append: "setWords (xs @ ys) d = setWords ys (setWords xs d)"
  by (simp add: setWords_def)

lemma setWords_spec_frame:
  assumes "distinct (map (\<lambda>w. unat (row w)) ws)" "\<forall>w\<in>set ws. unat (row w) < ROW_SIZE"
  shows "setWords ws (replicate ROW_SIZE 0) = spec_frame ws"
  using assms
proof (induction ws rule: rev_induct)
  case Nil
  show ?case
    by (rule nth_equalityI) (simp_all add: setWords_def spec_frame_def spec_row_def)
next
  case (snoc w ws)
  let ?k = "unat (row w)"
  from snoc.prems have k: "?k < ROW_SIZE"
    by simp
  from snoc.prems have "?k \<notin> (\<lambda>w. unat (row w)) ` set ws"
    by simp
  then have fresh: "\<forall>v\<in>set ws. unat (row v) \<noteq> ?k"
    by (metis imageI)
  from snoc have ih: "setWords ws (replicate ROW_SIZE 0) = spec_frame ws"
    by simp
  have zero: "spec_row ws ?k = 0"
    using fresh by (rule spec_row_untargeted)
  have "setWords (ws @ [w]) (replicate ROW_SIZE 0) = (spec_frame ws)[?k := data w]"
    using ih k by (simp add: setWords_append) (simp add: setWords_def clock_setRow_def)
  also have "\<dots> = spec_frame (ws @ [w])"
  proof (rule nth_equalityI)
    show "length ((spec_frame ws)[?k := data w]) = length (spec_frame (ws @ [w]))"
      by (simp add: length_spec_frame)
  next
    fix i
    assume "i < length ((spec_frame ws)[?k := data w])"
    then have i: "i < ROW_SIZE" by (simp add: length_spec_frame)
    show "(spec_frame ws)[?k := data w] ! i = spec_frame (ws @ [w]) ! i"
    proof (cases "i = ?k")
      case True
      then show ?thesis
        using i zero by (simp add: nth_spec_frame length_spec_frame spec_row_snoc)
    next
      case False
      then show ?thesis
        using i by (auto simp: nth_spec_frame spec_row_snoc)
    qed
  qed
  finally show ?case .
qed


lemma rows_disjoint:
  assumes "distinct (map (\<lambda>w. unat (row w)) xs)" "\<forall>w\<in>set xs. unat (row w) < 4"
    and "distinct (map (\<lambda>w. unat (row w)) ys)" "\<forall>w\<in>set ys. 4 \<le> unat (row w) \<and> unat (row w) < 8"
  shows "distinct (map (\<lambda>w. unat (row w)) (xs @ ys))"
    and "\<forall>w\<in>set (xs @ ys). unat (row w) < ROW_SIZE"
proof -
  have "set (map (\<lambda>w. unat (row w)) xs) \<inter> set (map (\<lambda>w. unat (row w)) ys) = {}"
  proof (rule ccontr)
    assume "set (map (\<lambda>w. unat (row w)) xs) \<inter> set (map (\<lambda>w. unat (row w)) ys) \<noteq> {}"
    then obtain k where "k \<in> set (map (\<lambda>w. unat (row w)) xs)" "k \<in> set (map (\<lambda>w. unat (row w)) ys)"
      by blast
    then obtain x y where "x \<in> set xs" "k = unat (row x)" "y \<in> set ys" "k = unat (row y)"
      by auto
    with assms(2,4) have "k < 4" "4 \<le> k" by auto
    then show False by simp
  qed
  with assms(1,3) show "distinct (map (\<lambda>w. unat (row w)) (xs @ ys))"
    by simp
  show "\<forall>w\<in>set (xs @ ys). unat (row w) < ROW_SIZE"
  proof
    fix w assume "w \<in> set (xs @ ys)"
    then have "w \<in> set xs \<or> w \<in> set ys" by simp
    then show "unat (row w) < ROW_SIZE"
    proof
      assume "w \<in> set xs"
      with assms(2) have "unat (row w) < 4" by blast
      then show ?thesis by (simp add: ROW_SIZE_def)
    next
      assume "w \<in> set ys"
      with assms(4) have "unat (row w) < 8" by blast
      then show ?thesis by (simp add: ROW_SIZE_def)
    qed
  qed
qed

lemma updateClock_wordSpans:
  assumes "hourWords (hourScrutinee ee h m) = Some H"
  shows "updateClock ee h m d = Inr (setWords (minuteWords m @ pastToWords m @ H) (clock_clear d))"
  unfolding updateClock_def Let_def setWords_append using assms by simp


text \<open>
  C9: for every hour in 1..12, minute in 0..59, summer flag and previous content of the
  display, the frame \<open>updateClock\<close> leaves is, row by row, the bitwise OR of the patterns
  of the words it sets on that row, and a row no word targets is zero.
\<close>

theorem frame_is_or_of_spans:
  assumes "1 \<le> h" "h \<le> 12" "m \<le> 59"
  shows "\<exists>ws. wordSpans ee h m = Inr ws
       \<and> updateClock ee h m d = Inr (spec_frame ws)
       \<and> (\<forall>r<ROW_SIZE. (\<forall>w\<in>set ws. unat (row w) \<noteq> r) \<longrightarrow> spec_frame ws ! r = 0)"
proof -
  from wordSpans_hours [OF assms(1,2)] obtain H where
    v: "hourScrutinee ee h m \<in> set hours" and
    H: "hourWords (hourScrutinee ee h m) = Some H" and
    ws: "wordSpans ee h m = Inr (minuteWords m @ pastToWords m @ H)"
    by blast
  let ?mw = "minuteWords m @ pastToWords m"
  let ?ws = "minuteWords m @ pastToWords m @ H"
  from hour_rows_enum v
  have "case hourWords (hourScrutinee ee h m) of
          None \<Rightarrow> False
        | Some H \<Rightarrow> distinct (map (\<lambda>w. unat (row w)) H)
                    \<and> (\<forall>w\<in>set H. 4 \<le> unat (row w) \<and> unat (row w) < 8)"
    by blast
  then have hr: "distinct (map (\<lambda>w. unat (row w)) H)"
    "\<forall>w\<in>set H. 4 \<le> unat (row w) \<and> unat (row w) < 8"
    unfolding H by simp_all
  have "m \<in> set minutes" using assms(3) by (rule minute_cases)
  with minute_rows_enum
  have mr: "distinct (map (\<lambda>w. unat (row w)) ?mw)" "\<forall>w\<in>set ?mw. unat (row w) < 4"
    by blast+
  have e: "?mw @ H = ?ws" by simp
  have d: "distinct (map (\<lambda>w. unat (row w)) ?ws)"
    using rows_disjoint(1) [OF mr hr] unfolding e .
  have b: "\<forall>w\<in>set ?ws. unat (row w) < ROW_SIZE"
    using rows_disjoint(2) [OF mr hr] unfolding e .
  have "updateClock ee h m d = Inr (setWords ?ws (clock_clear d))"
    using H by (rule updateClock_wordSpans)
  also have "clock_clear d = replicate ROW_SIZE 0"
    by (simp add: clock_clear_def)
  also have "setWords ?ws (replicate ROW_SIZE 0) = spec_frame ?ws"
    using d b by (rule setWords_spec_frame)
  finally have u: "updateClock ee h m d = Inr (spec_frame ?ws)" .
  have z: "\<forall>r<ROW_SIZE. (\<forall>w\<in>set ?ws. unat (row w) \<noteq> r) \<longrightarrow> spec_frame ?ws ! r = 0"
  proof (intro allI impI)
    fix r
    assume "r < ROW_SIZE" "\<forall>w\<in>set ?ws. unat (row w) \<noteq> r"
    then show "spec_frame ?ws ! r = 0"
      using nth_spec_frame [of r ?ws] spec_row_untargeted [of ?ws r] by simp
  qed
  from ws u z show ?thesis by blast
qed


theorem frame_is_or_of_spans_witness:
  "(1 :: u8) \<le> 9 \<and> (9 :: u8) \<le> 12 \<and> (23 :: u8) \<le> 59
   \<and> wordSpans 0 9 23 = Inr ([M_05, M_20, PAST] @ H_09)
   \<and> updateClock 0 9 23 [1, 2, 3, 4, 5, 6, 7, 8]
       = Inr [0b01111110, 0, 0b11110000, 0b01111000, 0, 0, 0, 0b00001111]"
proof -
  have h: "(1 :: u8) \<le> 9" "(9 :: u8) \<le> 12" "(23 :: u8) \<le> 59" by simp_all
  have w: "wordSpans 0 9 23 = Inr ([M_05, M_20, PAST] @ H_09)"
    by code_simp
  have u: "updateClock 0 9 23 [1, 2, 3, 4, 5, 6, 7, 8]
       = Inr [0b01111110, 0, 0b11110000, 0b01111000, 0, 0, 0, 0b00001111]"
    by code_simp
  from frame_is_or_of_spans [OF h, of 0 "[1, 2, 3, 4, 5, 6, 7, 8]"] h w u
  show ?thesis by simp
qed

subsection \<open>Digits\<close>

text \<open>
  C8: for every value \<open>v\<close> in 0..99 \<open>mapNumber\<close> returns a frame of \<open>FONT_ROWS\<close> rows, and in
  each row the high nibble is the row of the font glyph of the tens digit \<open>v / 10\<close> and the
  low nibble the row of the glyph of the units digit \<open>v mod 10\<close>.
\<close>

theorem mapNumber_font_roundtrip:
  assumes "v \<le> 99"
  shows "\<exists>mp. mapNumber v = Some mp \<and> length mp = FONT_ROWS \<and> (\<forall>i<FONT_ROWS.
         pgm_read_fontMap (unat (v div 10)) i = Some (drop_bit 4 (mp ! i))
       \<and> pgm_read_fontMap (unat (v mod 10)) i = Some (mp ! i AND 0x0F))"
  using mapNumber_digits [OF assms] digits_in_table(1) [of v] digits_in_table(2) [OF assms]
  by (auto simp: FONT_ROWS_def pgm_read_fontMap_def)

theorem mapNumber_font_roundtrip_witness:
  "(42 :: u8) \<le> 99 \<and> mapNumber 42 = Some [0x47, 0x41, 0x51, 0x57, 0x74, 0x14, 0x17, 0x00]"
proof -
  have h: "(42 :: u8) \<le> 99" by simp
  have "mapNumber 42 = Some [0x47, 0x41, 0x51, 0x57, 0x74, 0x14, 0x17, 0x00]"
    by code_simp
  with h mapNumber_font_roundtrip [OF h] show ?thesis by simp
qed


subsection \<open>Setting the time\<close>

lemma currentHour_le_12: "currentHour ee h \<le> 12"
  by (simp add: currentHour_def Let_def not_less)

lemma mapNumber_frame:
  assumes "v \<le> 99"
  shows "\<exists>mp. mapNumber v = Some mp \<and> length mp = 8"
  using mapNumber_digits [OF assms] by blast

lemma rows_upt: "[0..<FONT_ROWS] = [0, 1, 2, 3, 4, 5, 6, 7]"
  by code_simp

lemma cleared_rows: "clock_clear d = [0, 0, 0, 0, 0, 0, 0, 0]"
  unfolding clock_clear_def by code_simp

lemma mapShow_id:
  assumes "length mp = 8"
  shows "mapShow mp d = mp"
proof -
  from assms obtain a b c d e f g h where "mp = [a, b, c, d, e, f, g, h]"
    by (auto simp: eval_nat_numeral length_Suc_conv)
  then show ?thesis
    by (simp add: mapShow_def rows_upt cleared_rows ROW_SIZE_def clock_setRow_def)
qed

lemma unat_nextMinute: "unat (nextMinute m) = (unat m + 1) mod 60"
proof -
  have "(unat m + 1) mod 60 < 60" by simp
  then have "(unat m + 1) mod 60 < 2 ^ LENGTH(8)" by simp
  then show ?thesis
    unfolding nextMinute_def unat_of_nat by (rule mod_less)
qed

lemma nextMinute_le_59: "nextMinute m \<le> 59"
  by (simp add: word_le_nat_alt unat_nextMinute)

lemma timeout_positive: "0 < SETUP_TIMEOUT"
  by (simp add: SETUP_TIMEOUT_def)

lemma up_to_99:
  fixes v :: u8
  shows "v \<le> 12 \<Longrightarrow> v \<le> 99" and "v \<le> 59 \<Longrightarrow> v \<le> 99"
  by (simp_all add: word_le_nat_alt)

lemma step_disp_hour:
  assumes "ss_state s = SS_DISP_HOUR" "t_check p - timeLastActivity s < SETUP_TIMEOUT"
  shows "\<exists>mp. mapNumber (currentHour ee (rtc_h s)) = Some mp
           \<and> setupStep ee p s = Some (s\<lparr>ss_map := mp, ss_display := mp, ss_state := SS_HOUR\<rparr>)"
proof -
  have "currentHour ee (rtc_h s) \<le> 99"
    using currentHour_le_12 by (rule up_to_99(1))
  then obtain mp where mp: "mapNumber (currentHour ee (rtc_h s)) = Some mp" "length mp = 8"
    using mapNumber_frame by blast
  then have "setupStep ee p s = Some (s\<lparr>ss_map := mp, ss_display := mp, ss_state := SS_HOUR\<rparr>)"
    using assms by (simp add: setupStep_def not_le [symmetric] mapShow_id)
  with mp(1) show ?thesis by blast
qed

lemma step_disp_min:
  assumes "ss_state s = SS_DISP_MIN" "t_check p - timeLastActivity s < SETUP_TIMEOUT"
    and "rtc_m s \<le> 59"
  shows "\<exists>mp. mapNumber (rtc_m s) = Some mp
           \<and> setupStep ee p s = Some (s\<lparr>ss_map := mp, ss_display := mp, ss_state := SS_MIN\<rparr>)"
proof -
  have "rtc_m s \<le> 99"
    using assms(3) by (rule up_to_99(2))
  then obtain mp where mp: "mapNumber (rtc_m s) = Some mp" "length mp = 8"
    using mapNumber_frame by blast
  then have "setupStep ee p s = Some (s\<lparr>ss_map := mp, ss_display := mp, ss_state := SS_MIN\<rparr>)"
    using assms(1,2) by (simp add: setupStep_def not_le [symmetric] mapShow_id)
  with mp(1) show ?thesis by blast
qed

lemma step_hour_press:
  assumes "ss_state s = SS_HOUR" "t_check p - timeLastActivity s < SETUP_TIMEOUT"
    and "key p = KS_PRESS"
  shows "setupStep ee p s
           = Some (s\<lparr>timeLastActivity := t_event p, rtc_h := nextHour (rtc_h s),
                     ss_state := SS_DISP_HOUR\<rparr>)"
  using assms by (simp add: setupStep_def not_le [symmetric] nextHour_def)

lemma step_min_press:
  assumes "ss_state s = SS_MIN" "t_check p - timeLastActivity s < SETUP_TIMEOUT"
    and "key p = KS_PRESS"
  shows "setupStep ee p s
           = Some (s\<lparr>timeLastActivity := t_event p, rtc_m := nextMinute (rtc_m s),
                     ss_state := SS_DISP_MIN,
                     ss_display := mapShow (ss_map s) (ss_display s)\<rparr>)"
  using assms by (simp add: setupStep_def not_le [symmetric] nextMinute_def)


lemma clicks_Suc: "clicks (Suc n) t = click t @ clicks n t"
  by (simp add: clicks_def)

lemma hour_click_run:
  assumes "ss_state s = SS_HOUR" "t - timeLastActivity s < SETUP_TIMEOUT"
  shows "\<exists>s'. setupRun ee (click t @ ps) s = setupRun ee ps s'
           \<and> ss_state s' = SS_HOUR \<and> timeLastActivity s' = t
           \<and> rtc_h s' = nextHour (rtc_h s) \<and> rtc_m s' = rtc_m s"
proof -
  let ?p1 = "\<lparr>t_check = t, key = KS_PRESS, t_event = t\<rparr>"
  let ?p2 = "\<lparr>t_check = t, key = KS_NULL, t_event = t\<rparr>"
  let ?s1 = "s\<lparr>timeLastActivity := t, rtc_h := nextHour (rtc_h s), ss_state := SS_DISP_HOUR\<rparr>"
  have 1: "setupStep ee ?p1 s = Some ?s1"
    using step_hour_press [of s ?p1 ee] assms by simp
  have "\<exists>mp. mapNumber (currentHour ee (rtc_h ?s1)) = Some mp
           \<and> setupStep ee ?p2 ?s1
               = Some (?s1\<lparr>ss_map := mp, ss_display := mp, ss_state := SS_HOUR\<rparr>)"
    by (rule step_disp_hour) (simp_all add: timeout_positive)
  then obtain mp where
    2: "setupStep ee ?p2 ?s1 = Some (?s1\<lparr>ss_map := mp, ss_display := mp, ss_state := SS_HOUR\<rparr>)"
    by blast
  let ?s2 = "?s1\<lparr>ss_map := mp, ss_display := mp, ss_state := SS_HOUR\<rparr>"
  have "setupRun ee (click t @ ps) s = setupRun ee ps ?s2"
    using assms(1) 1 2 by (simp add: click_def)
  moreover have "ss_state ?s2 = SS_HOUR" "timeLastActivity ?s2 = t"
    "rtc_h ?s2 = nextHour (rtc_h s)" "rtc_m ?s2 = rtc_m s"
    by simp_all
  ultimately show ?thesis by blast
qed

lemma minute_click_run:
  assumes "ss_state s = SS_MIN" "t - timeLastActivity s < SETUP_TIMEOUT"
  shows "\<exists>s'. setupRun ee (click t @ ps) s = setupRun ee ps s'
           \<and> ss_state s' = SS_MIN \<and> timeLastActivity s' = t
           \<and> rtc_m s' = nextMinute (rtc_m s) \<and> rtc_h s' = rtc_h s"
proof -
  let ?p1 = "\<lparr>t_check = t, key = KS_PRESS, t_event = t\<rparr>"
  let ?p2 = "\<lparr>t_check = t, key = KS_NULL, t_event = t\<rparr>"
  let ?s1 = "s\<lparr>timeLastActivity := t, rtc_m := nextMinute (rtc_m s), ss_state := SS_DISP_MIN,
               ss_display := mapShow (ss_map s) (ss_display s)\<rparr>"
  have 1: "setupStep ee ?p1 s = Some ?s1"
    using step_min_press [of s ?p1 ee] assms by simp
  have "\<exists>mp. mapNumber (rtc_m ?s1) = Some mp
           \<and> setupStep ee ?p2 ?s1
               = Some (?s1\<lparr>ss_map := mp, ss_display := mp, ss_state := SS_MIN\<rparr>)"
    by (rule step_disp_min) (simp_all add: timeout_positive nextMinute_le_59)
  then obtain mp where
    2: "setupStep ee ?p2 ?s1 = Some (?s1\<lparr>ss_map := mp, ss_display := mp, ss_state := SS_MIN\<rparr>)"
    by blast
  let ?s2 = "?s1\<lparr>ss_map := mp, ss_display := mp, ss_state := SS_MIN\<rparr>"
  have "setupRun ee (click t @ ps) s = setupRun ee ps ?s2"
    using assms(1) 1 2 by (simp add: click_def)
  moreover have "ss_state ?s2 = SS_MIN" "timeLastActivity ?s2 = t"
    "rtc_m ?s2 = nextMinute (rtc_m s)" "rtc_h ?s2 = rtc_h s"
    by simp_all
  ultimately show ?thesis by blast
qed

lemma hour_clicks_run:
  assumes "ss_state s = SS_HOUR" "t - timeLastActivity s < SETUP_TIMEOUT"
  shows "\<exists>s'. setupRun ee (clicks n t) s = Some s' \<and> ss_state s' = SS_HOUR
           \<and> rtc_h s' = (nextHour ^^ n) (rtc_h s) \<and> rtc_m s' = rtc_m s"
  using assms
proof (induction n arbitrary: s)
  case 0
  then show ?case by (simp add: clicks_def)
next
  case (Suc n)
  from hour_click_run [OF Suc.prems, of ee "clicks n t"] obtain s1 where
    run: "setupRun ee (click t @ clicks n t) s = setupRun ee (clicks n t) s1" and
    s1: "ss_state s1 = SS_HOUR" "timeLastActivity s1 = t"
      "rtc_h s1 = nextHour (rtc_h s)" "rtc_m s1 = rtc_m s"
    by blast
  have "t - timeLastActivity s1 < SETUP_TIMEOUT"
    using s1(2) by (simp add: timeout_positive)
  from Suc.IH [OF s1(1) this] obtain s' where
    "setupRun ee (clicks n t) s1 = Some s'" "ss_state s' = SS_HOUR"
    "rtc_h s' = (nextHour ^^ n) (rtc_h s1)" "rtc_m s' = rtc_m s1"
    by blast
  then show ?case
    using run s1 by (simp add: clicks_Suc funpow_swap1)
qed

lemma minute_clicks_run:
  assumes "ss_state s = SS_MIN" "t - timeLastActivity s < SETUP_TIMEOUT"
  shows "\<exists>s'. setupRun ee (clicks n t) s = Some s' \<and> ss_state s' = SS_MIN
           \<and> rtc_m s' = (nextMinute ^^ n) (rtc_m s) \<and> rtc_h s' = rtc_h s"
  using assms
proof (induction n arbitrary: s)
  case 0
  then show ?case by (simp add: clicks_def)
next
  case (Suc n)
  from minute_click_run [OF Suc.prems, of ee "clicks n t"] obtain s1 where
    run: "setupRun ee (click t @ clicks n t) s = setupRun ee (clicks n t) s1" and
    s1: "ss_state s1 = SS_MIN" "timeLastActivity s1 = t"
      "rtc_m s1 = nextMinute (rtc_m s)" "rtc_h s1 = rtc_h s"
    by blast
  have "t - timeLastActivity s1 < SETUP_TIMEOUT"
    using s1(2) by (simp add: timeout_positive)
  from Suc.IH [OF s1(1) this] obtain s' where
    "setupRun ee (clicks n t) s1 = Some s'" "ss_state s' = SS_MIN"
    "rtc_m s' = (nextMinute ^^ n) (rtc_m s1)" "rtc_h s' = rtc_h s1"
    by blast
  then show ?case
    using run s1 by (simp add: clicks_Suc funpow_swap1)
qed

lemma nextHour_enum:
  "\<forall>h\<in>set hours. nextHour h \<in> set hours \<and> unat (nextHour h) = unat h mod 12 + 1
      \<and> nextHour h = (if h = 12 then 1 else h + 1) \<and> nextHour h \<noteq> h"
  by code_simp

lemma nextHour_pow:
  assumes "h \<in> set hours"
  shows "(nextHour ^^ n) h \<in> set hours
       \<and> unat ((nextHour ^^ n) h) = (unat h - 1 + n) mod 12 + 1"
proof (induction n)
  case 0
  have "\<forall>h\<in>set hours. unat h = (unat h - 1) mod 12 + 1" by code_simp
  with assms show ?case by simp
next
  case (Suc n)
  let ?x = "(nextHour ^^ n) h"
  from Suc nextHour_enum
  have "nextHour ?x \<in> set hours" "unat (nextHour ?x) = unat ?x mod 12 + 1"
    by blast+
  moreover have "unat ?x mod 12 = (unat h - 1 + Suc n) mod 12"
    using Suc by (simp add: mod_Suc_eq)
  ultimately show ?case by simp
qed

lemma nextMinute_pow:
  "unat ((nextMinute ^^ n) m) = (if n = 0 then unat m else (unat m + n) mod 60)"
proof (induction n)
  case 0
  show ?case by simp
next
  case (Suc n)
  then show ?case
    by (simp add: unat_nextMinute mod_Suc_eq)
qed

lemma nextHour_cycle:
  assumes "1 \<le> h" "h \<le> 12"
  shows "(nextHour ^^ 12) h = h" and "(nextHour ^^ 13) h = (if h = 12 then 1 else h + 1)"
    and "(nextHour ^^ 13) h \<noteq> h"
proof -
  have h: "h \<in> set hours" using assms by (rule hour_cases)
  have u: "1 \<le> unat h" "unat h \<le> 12"
    using assms by (simp_all add: word_le_nat_alt)
  have "unat ((nextHour ^^ 12) h) = (unat h - 1 + 12) mod 12 + 1"
    using nextHour_pow [OF h, of 12] by simp
  also have "\<dots> = unat h"
  proof -
    from u obtain k where k: "unat h = Suc k" "k < 12"
      by (cases "unat h") auto
    then show ?thesis by simp
  qed
  finally show 12: "(nextHour ^^ 12) h = h" by (simp add: word_unat_eq_iff)
  have "(nextHour ^^ 13) h = nextHour ((nextHour ^^ 12) h)"
    by (simp add: eval_nat_numeral)
  then have 13: "(nextHour ^^ 13) h = nextHour h" using 12 by simp
  with nextHour_enum h show "(nextHour ^^ 13) h = (if h = 12 then 1 else h + 1)"
    and "(nextHour ^^ 13) h \<noteq> h"
    by simp_all
qed

lemma nextMinute_cycle:
  assumes "m \<le> 59"
  shows "(nextMinute ^^ 60) m = m"
proof -
  have "unat m < 60" using assms by (simp add: word_le_nat_alt)
  then have "unat ((nextMinute ^^ 60) m) = unat m"
    by (simp add: nextMinute_pow)
  then show ?thesis by (simp add: word_unat_eq_iff)
qed


text \<open>
  C3: in setup mode, while no time-out occurs, twelve single clicks in the hour-editing state
  return the hour to its value, for every starting hour in 1..12, and thirteen leave it one
  hour further (12 wrapping to 1); sixty single clicks in the minute-editing state return
  the minute to its value, for every starting minute in 0..59.
\<close>

theorem setup_click_cycles:
  assumes "t - timeLastActivity s < SETUP_TIMEOUT"
  shows "(ss_state s = SS_HOUR \<and> 1 \<le> rtc_h s \<and> rtc_h s \<le> 12 \<longrightarrow>
            (\<exists>s'. setupRun ee (clicks 12 t) s = Some s' \<and> ss_state s' = SS_HOUR
                  \<and> rtc_h s' = rtc_h s)
          \<and> (\<exists>s'. setupRun ee (clicks 13 t) s = Some s' \<and> ss_state s' = SS_HOUR
                  \<and> rtc_h s' = (if rtc_h s = 12 then 1 else rtc_h s + 1)
                  \<and> rtc_h s' \<noteq> rtc_h s))
       \<and> (ss_state s = SS_MIN \<and> rtc_m s \<le> 59 \<longrightarrow>
            (\<exists>s'. setupRun ee (clicks 60 t) s = Some s' \<and> ss_state s' = SS_MIN
                  \<and> rtc_m s' = rtc_m s))"
proof (intro conjI impI)
  assume a: "ss_state s = SS_HOUR \<and> 1 \<le> rtc_h s \<and> rtc_h s \<le> 12"
  then have st: "ss_state s = SS_HOUR" and h: "1 \<le> rtc_h s" "rtc_h s \<le> 12"
    by blast+
  show "\<exists>s'. setupRun ee (clicks 12 t) s = Some s' \<and> ss_state s' = SS_HOUR
              \<and> rtc_h s' = rtc_h s"
    using hour_clicks_run [OF st assms, of ee 12] nextHour_cycle(1) [OF h] by auto
  show "\<exists>s'. setupRun ee (clicks 13 t) s = Some s' \<and> ss_state s' = SS_HOUR
              \<and> rtc_h s' = (if rtc_h s = 12 then 1 else rtc_h s + 1)
              \<and> rtc_h s' \<noteq> rtc_h s"
    using hour_clicks_run [OF st assms, of ee 13] nextHour_cycle(2,3) [OF h] by auto
next
  assume a: "ss_state s = SS_MIN \<and> rtc_m s \<le> 59"
  then have st: "ss_state s = SS_MIN" and m: "rtc_m s \<le> 59"
    by blast+
  show "\<exists>s'. setupRun ee (clicks 60 t) s = Some s' \<and> ss_state s' = SS_MIN
              \<and> rtc_m s' = rtc_m s"
    using minute_clicks_run [OF st assms, of ee 60] nextMinute_cycle [OF m] by auto
qed

theorem setup_click_cycles_witness:
  "map_option rtc_h
     (setupRun 0 (clicks 12 5)
        \<lparr>ss_state = SS_HOUR, timeLastActivity = 0, rtc_h = 12, rtc_m = 30,
         ss_map = [0, 0, 0, 0, 0, 0, 0, 0], ss_display = [0, 0, 0, 0, 0, 0, 0, 0]\<rparr>) = Some 12
   \<and> map_option rtc_m
     (setupRun 0 (clicks 60 5)
        \<lparr>ss_state = SS_MIN, timeLastActivity = 0, rtc_h = 12, rtc_m = 30,
         ss_map = [0, 0, 0, 0, 0, 0, 0, 0], ss_display = [0, 0, 0, 0, 0, 0, 0, 0]\<rparr>) = Some 30"
proof -
  let ?sh = "\<lparr>ss_state = SS_HOUR, timeLastActivity = 0, rtc_h = 12, rtc_m = 30,
         ss_map = [0, 0, 0, 0, 0, 0, 0, 0], ss_display = [0, 0, 0, 0, 0, 0, 0, 0]\<rparr>"
  let ?sm = "\<lparr>ss_state = SS_MIN, timeLastActivity = 0, rtc_h = 12, rtc_m = 30,
         ss_map = [0, 0, 0, 0, 0, 0, 0, 0], ss_display = [0, 0, 0, 0, 0, 0, 0, 0]\<rparr>"
  have th: "5 - timeLastActivity ?sh < SETUP_TIMEOUT"
    by (simp add: SETUP_TIMEOUT_def)
  have tm: "5 - timeLastActivity ?sm < SETUP_TIMEOUT"
    by (simp add: SETUP_TIMEOUT_def)
  have "ss_state ?sh = SS_HOUR \<and> 1 \<le> rtc_h ?sh \<and> rtc_h ?sh \<le> 12"
    by simp
  with setup_click_cycles [OF th, of 0]
  have "\<exists>s'. setupRun 0 (clicks 12 5) ?sh = Some s' \<and> ss_state s' = SS_HOUR
              \<and> rtc_h s' = rtc_h ?sh"
    by blast
  then have 1: "map_option rtc_h (setupRun 0 (clicks 12 5) ?sh) = Some 12"
    by auto
  have "ss_state ?sm = SS_MIN \<and> rtc_m ?sm \<le> 59"
    by simp
  with setup_click_cycles [OF tm, of 0]
  have "\<exists>s'. setupRun 0 (clicks 60 5) ?sm = Some s' \<and> ss_state s' = SS_MIN
              \<and> rtc_m s' = rtc_m ?sm"
    by blast
  then have 2: "map_option rtc_m (setupRun 0 (clicks 60 5) ?sm) = Some 30"
    by auto
  from 1 2 show ?thesis by blast
qed

text \<open>
  Thirteen single clicks do not return the hour: starting from hour 1 they leave hour 2.
\<close>

theorem thirteen_clicks_counterexample:
  "map_option rtc_h
     (setupRun 0 (clicks 13 0)
        \<lparr>ss_state = SS_HOUR, timeLastActivity = 0, rtc_h = 1, rtc_m = 0,
         ss_map = [0, 0, 0, 0, 0, 0, 0, 0], ss_display = [0, 0, 0, 0, 0, 0, 0, 0]\<rparr>) = Some 2"
proof -
  let ?s = "\<lparr>ss_state = SS_HOUR, timeLastActivity = 0, rtc_h = 1, rtc_m = 0,
         ss_map = [0, 0, 0, 0, 0, 0, 0, 0], ss_display = [0, 0, 0, 0, 0, 0, 0, 0]\<rparr>"
  have st: "ss_state ?s = SS_HOUR" by simp
  have t: "0 - timeLastActivity ?s < SETUP_TIMEOUT"
    by (simp add: SETUP_TIMEOUT_def)
  have "(nextHour ^^ 13) (rtc_h ?s) = 2"
    using nextHour_cycle(2) [of "rtc_h ?s"] by simp
  with hour_clicks_run [OF st t, of 0 13] show ?thesis
    by auto
qed

text \<open>
  C4: in the setup loop, the pass in state \<open>SS_DISP_HOUR\<close> shows, through the digit encoder,
  the hour with the summer offset: for every stored hour \<open>h\<close> in 1..12 the frame on the display
  is that of \<open>h\<close> when the summer flag is clear and that of \<open>h + 1\<close> (13 wrapping to 1) when
  it is set; the stored hour is unchanged and the state becomes \<open>SS_HOUR\<close>.
\<close>

theorem display_hour_shows_summer_hour:
  assumes "ss_state s = SS_DISP_HOUR" "t_check p - timeLastActivity s < SETUP_TIMEOUT"
    and "1 \<le> rtc_h s" "rtc_h s \<le> 12"
  shows "\<exists>s'. setupStep ee p s = Some s' \<and> ss_state s' = SS_HOUR \<and> rtc_h s' = rtc_h s
            \<and> mapNumber (spec_summer_hour ee (rtc_h s)) = Some (ss_display s')
            \<and> (\<not> isSummerMode ee \<longrightarrow> mapNumber (rtc_h s) = Some (ss_display s'))"
proof -
  from step_disp_hour [OF assms(1,2), of ee] obtain mp where
    mp: "mapNumber (currentHour ee (rtc_h s)) = Some mp" and
    step: "setupStep ee p s = Some (s\<lparr>ss_map := mp, ss_display := mp, ss_state := SS_HOUR\<rparr>)"
    by blast
  have c: "currentHour ee (rtc_h s) = spec_summer_hour ee (rtc_h s)"
    using currentHour_hours(1) [OF assms(3,4), of ee] by (simp add: spec_summer_hour_def)
  have "\<not> isSummerMode ee \<longrightarrow> spec_summer_hour ee (rtc_h s) = rtc_h s"
    by (simp add: spec_summer_hour_def)
  with mp step c show ?thesis by auto
qed

theorem display_hour_shows_summer_hour_witness:
  "map_option ss_display
     (setupStep 1 \<lparr>t_check = 0, key = KS_NULL, t_event = 0\<rparr>
        \<lparr>ss_state = SS_DISP_HOUR, timeLastActivity = 0, rtc_h = 12, rtc_m = 0,
         ss_map = [0, 0, 0, 0, 0, 0, 0, 0], ss_display = [0, 0, 0, 0, 0, 0, 0, 0]\<rparr>)
     = mapNumber 1"
proof -
  let ?p = "\<lparr>t_check = 0, key = KS_NULL, t_event = 0\<rparr>"
  let ?s = "\<lparr>ss_state = SS_DISP_HOUR, timeLastActivity = 0, rtc_h = 12, rtc_m = 0,
         ss_map = [0, 0, 0, 0, 0, 0, 0, 0], ss_display = [0, 0, 0, 0, 0, 0, 0, 0]\<rparr>"
  have a: "ss_state ?s = SS_DISP_HOUR" "t_check ?p - timeLastActivity ?s < SETUP_TIMEOUT"
    "1 \<le> rtc_h ?s" "rtc_h ?s \<le> 12"
    by (simp_all add: SETUP_TIMEOUT_def)
  have "spec_summer_hour 1 (rtc_h ?s) = 1"
    by (simp add: spec_summer_hour_def isSummerMode_def)
  with display_hour_shows_summer_hour [OF a, of 1] show ?thesis
    by auto
qed

text \<open>
  With the summer flag set the number shown is not the stored hour that the clicks
  increment: for stored hour 3 the display shows 4.
\<close>

theorem display_hour_counterexample:
  "map_option ss_display
     (setupStep 1 \<lparr>t_check = 0, key = KS_NULL, t_event = 0\<rparr>
        \<lparr>ss_state = SS_DISP_HOUR, timeLastActivity = 0, rtc_h = 3, rtc_m = 0,
         ss_map = [0, 0, 0, 0, 0, 0, 0, 0], ss_display = [0, 0, 0, 0, 0, 0, 0, 0]\<rparr>)
     = mapNumber 4
   \<and> mapNumber 4 \<noteq> mapNumber 3"
proof -
  let ?p = "\<lparr>t_check = 0, key = KS_NULL, t_event = 0\<rparr>"
  let ?s = "\<lparr>ss_state = SS_DISP_HOUR, timeLastActivity = 0, rtc_h = 3, rtc_m = 0,
         ss_map = [0, 0, 0, 0, 0, 0, 0, 0], ss_display = [0, 0, 0, 0, 0, 0, 0, 0]\<rparr>"
  have a: "ss_state ?s = SS_DISP_HOUR" "t_check ?p - timeLastActivity ?s < SETUP_TIMEOUT"
    by (simp_all add: SETUP_TIMEOUT_def)
  have c: "currentHour 1 (rtc_h ?s) = 4"
    by (simp add: currentHour_def isSummerMode_def)
  from step_disp_hour [OF a, of 1]
  have "map_option ss_display (setupStep 1 ?p ?s) = mapNumber 4"
    unfolding c by auto
  moreover have "mapNumber 4 \<noteq> mapNumber 3"
    by code_simp
  ultimately show ?thesis by blast
qed


end
